theory Spec2Isabelle
  imports Main
begin

section \<open>Python values the two iterator modules rely on\<close>

text \<open>
  The exceptions that occur in \<^verbatim>\<open>behavioral_patterns/Iterator.py\<close> and
  \<^verbatim>\<open>test_iterator.py\<close>: \<^verbatim>\<open>IndexError\<close> from list indexing,
  \<^verbatim>\<open>StopIteration\<close> from the iterator protocol and \<^verbatim>\<open>OverflowError\<close> from date
  arithmetic.
\<close>

datatype error = IndexError | StopIteration | OverflowError

text \<open>
  \<^verbatim>\<open>xs[i]\<close> on a Python list: a negative index counts from the end, and an index that is
  still out of range after that adjustment raises \<^verbatim>\<open>IndexError\<close>.
\<close>

definition getitem :: "'a list \<Rightarrow> int \<Rightarrow> error + 'a" where
  "getitem xs i =
     (let n = int (length xs); j = (if i < 0 then i + n else i)
      in if j < 0 \<or> n \<le> j then Inl IndexError else Inr (xs ! nat j))"

section \<open>Objects and the heap\<close>

text \<open>
  List objects and iterator objects are mutable and are reached through references, so
  they live in a heap. A container object only stores the reference to its list in
  \<^verbatim>\<open>_collection\<close> and never reassigns it, so a container is a value.

  The two iterator classes: \<^verbatim>\<open>AlphabeticalOrderIterator\<close> has the fields
  \<^verbatim>\<open>_collection\<close>, \<^verbatim>\<open>_reverse\<close> and \<^verbatim>\<open>_position\<close>; \<^verbatim>\<open>CalendarIterator\<close> has
  \<^verbatim>\<open>_collection\<close> and \<^verbatim>\<open>_position\<close>. In both, \<^verbatim>\<open>_collection\<close> refers to a list
  object (that is what both \<^verbatim>\<open>__iter__\<close> methods pass).
\<close>

type_synonym ref = nat

datatype iterator =
    AlphabeticalOrderIterator (it_collection: ref) (it_reverse: bool) (it_position: int)
  | CalendarIterator (it_collection: ref) (it_position: int)
where
  "it_reverse (CalendarIterator c p) = False"

datatype WordsCollection = WordsCollection (wc_collection: ref)

datatype CollectionCalendarDays = CollectionCalendarDays (ccd_collection: ref)

record 'a heap =
  list_at :: "ref \<Rightarrow> 'a list"
  iterator_at :: "ref \<Rightarrow> iterator"
  next_ref :: ref

section \<open>Iterator.py\<close>

text \<open>
  \<^verbatim>\<open>AlphabeticalOrderIterator.__init__(self, collection, reverse=False)\<close>: a new iterator
  object is allocated; its position is \<^verbatim>\<open>-1 if reverse else 0\<close>.
\<close>

definition AlphabeticalOrderIterator_init :: "'a heap \<Rightarrow> ref \<Rightarrow> bool \<Rightarrow> ref \<times> 'a heap" where
  "AlphabeticalOrderIterator_init h coll rev_flag =
     (let r = next_ref h
      in (r, h\<lparr>iterator_at := (iterator_at h)
                  (r := AlphabeticalOrderIterator coll rev_flag (if rev_flag then - 1 else 0)),
               next_ref := Suc r\<rparr>))"

text \<open>
  \<^verbatim>\<open>AlphabeticalOrderIterator.__next__\<close>: the lookup comes first; when it raises
  \<^verbatim>\<open>IndexError\<close> the assignment to \<^verbatim>\<open>_position\<close> is not reached and
  \<^verbatim>\<open>StopIteration\<close> is raised instead. Any other exception would propagate.
\<close>

definition AlphabeticalOrderIterator_next ::
  "'a heap \<Rightarrow> ref \<Rightarrow> ref \<Rightarrow> bool \<Rightarrow> int \<Rightarrow> (error + 'a) \<times> 'a heap" where
  "AlphabeticalOrderIterator_next h self coll rev_flag pos =
     (case getitem (list_at h coll) pos of
        Inl e \<Rightarrow> (Inl (if e = IndexError then StopIteration else e), h)
      | Inr v \<Rightarrow>
          (Inr v, h\<lparr>iterator_at := (iterator_at h)
                      (self := AlphabeticalOrderIterator coll rev_flag
                                 (pos + (if rev_flag then - 1 else 1)))\<rparr>))"

text \<open>
  \<^verbatim>\<open>WordsCollection.__init__(self, collection=[])\<close>: the default value is one list object,
  created when the \<^verbatim>\<open>def\<close> statement runs, and every call without an argument receives
  that same object.
\<close>

definition WordsCollection_default :: ref where
  "WordsCollection_default = 0"

definition WordsCollection_init :: "ref option \<Rightarrow> WordsCollection" where
  "WordsCollection_init arg =
     WordsCollection (case arg of None \<Rightarrow> WordsCollection_default | Some l \<Rightarrow> l)"

definition WordsCollection_iter :: "'a heap \<Rightarrow> WordsCollection \<Rightarrow> ref \<times> 'a heap" where
  "WordsCollection_iter h c = AlphabeticalOrderIterator_init h (wc_collection c) False"

definition get_reverse_iterator :: "'a heap \<Rightarrow> WordsCollection \<Rightarrow> ref \<times> 'a heap" where
  "get_reverse_iterator h c = AlphabeticalOrderIterator_init h (wc_collection c) True"

definition WordsCollection_add_item :: "'a heap \<Rightarrow> WordsCollection \<Rightarrow> 'a \<Rightarrow> 'a heap" where
  "WordsCollection_add_item h c item =
     h\<lparr>list_at := (list_at h)(wc_collection c := list_at h (wc_collection c) @ [item])\<rparr>"

section \<open>test\_iterator.py\<close>

definition CalendarIterator_init :: "'a heap \<Rightarrow> ref \<Rightarrow> ref \<times> 'a heap" where
  "CalendarIterator_init h coll =
     (let r = next_ref h
      in (r, h\<lparr>iterator_at := (iterator_at h)(r := CalendarIterator coll 0),
               next_ref := Suc r\<rparr>))"

definition CalendarIterator_next ::
  "'a heap \<Rightarrow> ref \<Rightarrow> ref \<Rightarrow> int \<Rightarrow> (error + 'a) \<times> 'a heap" where
  "CalendarIterator_next h self coll pos =
     (case getitem (list_at h coll) pos of
        Inl e \<Rightarrow> (Inl (if e = IndexError then StopIteration else e), h)
      | Inr v \<Rightarrow>
          (Inr v, h\<lparr>iterator_at := (iterator_at h)(self := CalendarIterator coll (pos + 1))\<rparr>))"

definition CollectionCalendarDays_default :: ref where
  "CollectionCalendarDays_default = 1"

definition CollectionCalendarDays_init :: "ref option \<Rightarrow> CollectionCalendarDays" where
  "CollectionCalendarDays_init arg =
     CollectionCalendarDays
       (case arg of None \<Rightarrow> CollectionCalendarDays_default | Some l \<Rightarrow> l)"

definition CollectionCalendarDays_iter ::
  "'a heap \<Rightarrow> CollectionCalendarDays \<Rightarrow> ref \<times> 'a heap" where
  "CollectionCalendarDays_iter h c = CalendarIterator_init h (ccd_collection c)"

definition CollectionCalendarDays_add_item ::
  "'a heap \<Rightarrow> CollectionCalendarDays \<Rightarrow> 'a \<Rightarrow> 'a heap" where
  "CollectionCalendarDays_add_item h c item =
     h\<lparr>list_at := (list_at h)(ccd_collection c := list_at h (ccd_collection c) @ [item])\<rparr>"

definition add_items :: "'a heap \<Rightarrow> CollectionCalendarDays \<Rightarrow> 'a list \<Rightarrow> 'a heap" where
  "add_items h c items =
     h\<lparr>list_at := (list_at h)(ccd_collection c := list_at h (ccd_collection c) @ items)\<rparr>"

section \<open>Pulling values\<close>

text \<open>
  The builtin \<^verbatim>\<open>next(it)\<close> calls the \<^verbatim>\<open>__next__\<close> of the object's class on the object's
  current fields.
\<close>

definition builtin_next :: "'a heap \<Rightarrow> ref \<Rightarrow> (error + 'a) \<times> 'a heap" where
  "builtin_next h r =
     (case iterator_at h r of
        AlphabeticalOrderIterator coll rev_flag pos \<Rightarrow>
          AlphabeticalOrderIterator_next h r coll rev_flag pos
      | CalendarIterator coll pos \<Rightarrow> CalendarIterator_next h r coll pos)"

text \<open>
  A client that calls \<^verbatim>\<open>next\<close> on the iterators named in \<open>rs\<close>, one call after the
  other, and records what each call returned or raised.
\<close>

fun pulls :: "'a heap \<Rightarrow> ref list \<Rightarrow> (error + 'a) list \<times> 'a heap" where
  "pulls h [] = ([], h)"
| "pulls h (r # rs) =
     (case builtin_next h r of (x, h') \<Rightarrow>
        (case pulls h' rs of (xs, h'') \<Rightarrow> (x # xs, h'')))"

text \<open>Appending a list of items one \<^verbatim>\<open>add_item\<close> call at a time, in order.\<close>

fun populate :: "'a heap \<Rightarrow> WordsCollection \<Rightarrow> 'a list \<Rightarrow> 'a heap" where
  "populate h c [] = h"
| "populate h c (x # xs) = populate (WordsCollection_add_item h c x) c xs"

fun populate_days :: "'a heap \<Rightarrow> CollectionCalendarDays \<Rightarrow> 'a list \<Rightarrow> 'a heap" where
  "populate_days h c [] = h"
| "populate_days h c (x # xs) = populate_days (CollectionCalendarDays_add_item h c x) c xs"

text \<open>
  The heap right after the modules are loaded: the two default lists exist and are empty,
  and no iterator has been created (\<open>next_ref\<close> is the first unused iterator address;
  what \<open>iterator_at\<close> holds at an unused address is a placeholder that every
  \<^verbatim>\<open>__init__\<close> overwrites).
\<close>

definition initial_heap :: "'a heap" where
  "initial_heap = \<lparr>list_at = (\<lambda>_. []), iterator_at = (\<lambda>_. CalendarIterator 0 0), next_ref = 0\<rparr>"

text \<open>
  The client code at the end of \<^verbatim>\<open>Iterator.py\<close>: a collection created without an
  argument, then three \<^verbatim>\<open>add_item\<close> calls.
\<close>

definition demo_collection :: WordsCollection where
  "demo_collection = WordsCollection_init None"

definition demo_heap :: "string heap" where
  "demo_heap = populate initial_heap demo_collection [''First'', ''Second'', ''Third'']"

text \<open>
  The results that the calls on one iterator \<open>a\<close> received, out of the results \<open>xs\<close> of
  the calls \<open>rs\<close>.
\<close>

definition results_of :: "ref \<Rightarrow> ref list \<Rightarrow> 'b list \<Rightarrow> 'b list" where
  "results_of a rs xs = map snd (filter (\<lambda>p. fst p = a) (zip rs xs))"

text \<open>
  The two states the specification gives a cursor, read off the results of the calls made
  on it so far: it is exhausted once a call has raised.
\<close>

datatype cursor_state = Active | Exhausted

definition cursor_state_after :: "(error + 'a) list \<Rightarrow> cursor_state" where
  "cursor_state_after xs = (if list_ex isl xs then Exhausted else Active)"

section \<open>The generator of test\_iterator.py\<close>

text \<open>
  A \<^verbatim>\<open>datetime.date\<close> is represented by its proleptic Gregorian ordinal
  (\<^verbatim>\<open>date.toordinal()\<close>): dates are ordered as their ordinals are, the ordinals of the
  dates run from 1 (\<^verbatim>\<open>date.min\<close>) to 3652059 (\<^verbatim>\<open>date.max\<close>, 31 December 9999),
  and \<^verbatim>\<open>d + timedelta(days=n)\<close> adds \<open>n\<close> to the ordinal and raises
  \<^verbatim>\<open>OverflowError\<close> when the result is not the ordinal of a date.
  \<^verbatim>\<open>strftime\<close> belongs to the standard library and is a parameter of the model.
\<close>

type_synonym date = int

definition MAXORDINAL :: int where
  "MAXORDINAL = 3652059"

definition is_date :: "date \<Rightarrow> bool" where
  "is_date d = (1 \<le> d \<and> d \<le> MAXORDINAL)"

definition date_add_days :: "date \<Rightarrow> int \<Rightarrow> error + date" where
  "date_add_days d n =
     (let ord = d + n in if 0 < ord \<and> ord \<le> MAXORDINAL then Inr ord else Inl OverflowError)"

text \<open>
  A generator object is either not started (it holds its two arguments), suspended at the
  \<^verbatim>\<open>yield\<close> inside the loop (it holds the locals \<^verbatim>\<open>start_calendar\<close> and
  \<^verbatim>\<open>end_calendar\<close>), or finished, by falling off the end or by an exception.
\<close>

datatype generator = Created date date | Suspended date date | Finished

definition calendar_generator_datetime :: "date \<Rightarrow> date \<Rightarrow> generator" where
  "calendar_generator_datetime start_calendar end_calendar = Created start_calendar end_calendar"

text \<open>
  The head of the \<^verbatim>\<open>while\<close> loop: either the body runs up to the \<^verbatim>\<open>yield\<close>, or the
  function returns, which the caller sees as \<^verbatim>\<open>StopIteration\<close>.
\<close>

definition loop_head :: "(date \<Rightarrow> string) \<Rightarrow> date \<Rightarrow> date \<Rightarrow> (error + string) \<times> generator" where
  "loop_head strftime start_calendar end_calendar =
     (if start_calendar \<le> end_calendar
      then (Inr (strftime start_calendar), Suspended start_calendar end_calendar)
      else (Inl StopIteration, Finished))"

text \<open>
  One \<^verbatim>\<open>next\<close> on the generator. Resuming after the \<^verbatim>\<open>yield\<close> first runs
  \<^verbatim>\<open>start_calendar += timedelta(days=1)\<close>; an exception there ends the generator and
  reaches the caller.
\<close>

fun generator_next :: "(date \<Rightarrow> string) \<Rightarrow> generator \<Rightarrow> (error + string) \<times> generator" where
  "generator_next strftime (Created s e) = loop_head strftime s e"
| "generator_next strftime (Suspended s e) =
     (case date_add_days s 1 of
        Inl err \<Rightarrow> (Inl err, Finished)
      | Inr s' \<Rightarrow> loop_head strftime s' e)"
| "generator_next strftime Finished = (Inl StopIteration, Finished)"

fun generator_pulls :: "(date \<Rightarrow> string) \<Rightarrow> nat \<Rightarrow> generator \<Rightarrow> (error + string) list" where
  "generator_pulls strftime 0 g = []"
| "generator_pulls strftime (Suc n) g =
     fst (generator_next strftime g) # generator_pulls strftime n (snd (generator_next strftime g))"

section \<open>Properties of the model\<close>


subsection \<open>List indexing\<close>

lemma getitem_nat: "n < length xs \<Longrightarrow> getitem xs (int n) = Inr (xs ! n)"
  by (simp add: getitem_def Let_def)

lemma getitem_past_end: "int (length xs) \<le> i \<Longrightarrow> getitem xs i = Inl IndexError"
  by (simp add: getitem_def Let_def)

lemma getitem_from_end:
  assumes "n < length xs"
  shows "getitem xs (- 1 - int n) = Inr (xs ! (length xs - Suc n))"
proof -
  have "- 1 - int n + int (length xs) = int (length xs - Suc n)"
    using assms by simp
  then show ?thesis
    using assms by (simp add: getitem_def Let_def del: of_nat_diff)
qed

lemma getitem_before_start: "i < - int (length xs) \<Longrightarrow> getitem xs i = Inl IndexError"
  by (simp add: getitem_def Let_def)

lemma getitem_raises_iff:
  "(\<exists>e. getitem xs i = Inl e) = (i < - int (length xs) \<or> int (length xs) \<le> i)"
  by (auto simp add: getitem_def Let_def)

lemma getitem_error: "getitem xs i = Inl e \<Longrightarrow> e = IndexError"
  by (auto simp add: getitem_def Let_def split: if_splits)

subsection \<open>What one call reads and writes\<close>

lemmas next_defs =
  builtin_next_def AlphabeticalOrderIterator_next_def CalendarIterator_next_def

lemma builtin_next_list_at: "list_at (snd (builtin_next h r)) = list_at h"
  by (simp add: next_defs split: iterator.split sum.split)

lemma builtin_next_next_ref: "next_ref (snd (builtin_next h r)) = next_ref h"
  by (simp add: next_defs split: iterator.split sum.split)

lemma builtin_next_other:
  "r' \<noteq> r \<Longrightarrow> iterator_at (snd (builtin_next h r)) r' = iterator_at h r'"
  by (simp add: next_defs split: iterator.split sum.split)

lemma builtin_next_raise_heap:
  "fst (builtin_next h r) = Inl e \<Longrightarrow> snd (builtin_next h r) = h"
  by (auto simp add: next_defs split: iterator.splits sum.splits)

lemma builtin_next_raise_kind:
  "fst (builtin_next h r) = Inl e \<Longrightarrow> e = StopIteration"
  by (auto simp add: next_defs split: iterator.splits sum.splits dest: getitem_error)

lemma builtin_next_raises_iff:
  "(fst (builtin_next h r) = Inl StopIteration) =
   (it_position (iterator_at h r) < - int (length (list_at h (it_collection (iterator_at h r))))
    \<or> int (length (list_at h (it_collection (iterator_at h r)))) \<le> it_position (iterator_at h r))"
proof -
  have "(fst (builtin_next h r) = Inl StopIteration) =
    (\<exists>e. getitem (list_at h (it_collection (iterator_at h r))) (it_position (iterator_at h r)) = Inl e)"
    by (cases "iterator_at h r") (auto simp add: next_defs split: sum.splits dest: getitem_error)
  then show ?thesis by (simp only: getitem_raises_iff)
qed

lemma builtin_next_agree:
  assumes "list_at h1 = list_at h2" and "iterator_at h1 a = iterator_at h2 a"
  shows "fst (builtin_next h1 a) = fst (builtin_next h2 a)"
    and "iterator_at (snd (builtin_next h1 a)) a = iterator_at (snd (builtin_next h2 a)) a"
  using assms by (auto simp add: next_defs split: iterator.splits sum.splits)

subsection \<open>Sequences of calls\<close>

lemma fst_pulls_Cons:
  "fst (pulls h (r # rs)) = fst (builtin_next h r) # fst (pulls (snd (builtin_next h r)) rs)"
  by (simp split: prod.split)

lemma snd_pulls_Cons:
  "snd (pulls h (r # rs)) = snd (pulls (snd (builtin_next h r)) rs)"
  by (simp split: prod.split)

lemma pulls_list_at: "list_at (snd (pulls h rs)) = list_at h"
  by (induction rs arbitrary: h) (simp_all only: pulls.simps(1) snd_pulls_Cons snd_conv builtin_next_list_at)

lemma pulls_next_ref: "next_ref (snd (pulls h rs)) = next_ref h"
  by (induction rs arbitrary: h) (simp_all only: pulls.simps(1) snd_pulls_Cons snd_conv builtin_next_next_ref)

lemma length_pulls: "length (fst (pulls h rs)) = length rs"
  by (induction rs arbitrary: h) (simp_all only: pulls.simps(1) fst_pulls_Cons fst_conv list.size)

lemma pulls_other:
  "a \<notin> set rs \<Longrightarrow> iterator_at (snd (pulls h rs)) a = iterator_at h a"
proof (induction rs arbitrary: h)
  case Nil
  show ?case by simp
next
  case (Cons r rs)
  then have ne: "a \<noteq> r" and notin: "a \<notin> set rs" by auto
  have "iterator_at (snd (pulls (snd (builtin_next h r)) rs)) a =
        iterator_at (snd (builtin_next h r)) a"
    using notin by (rule Cons.IH)
  also have "\<dots> = iterator_at h a"
    using ne by (rule builtin_next_other)
  finally show ?case by (simp only: snd_pulls_Cons)
qed

lemma pulls_agree:
  "list_at h1 = list_at h2 \<Longrightarrow> iterator_at h1 a = iterator_at h2 a \<Longrightarrow>
   fst (pulls h1 (replicate n a)) = fst (pulls h2 (replicate n a))"
proof (induction n arbitrary: h1 h2)
  case 0
  show ?case by simp
next
  case (Suc n)
  have head: "fst (builtin_next h1 a) = fst (builtin_next h2 a)"
    using Suc.prems by (rule builtin_next_agree(1))
  have "list_at (snd (builtin_next h1 a)) = list_at (snd (builtin_next h2 a))"
    using Suc.prems(1) by (simp only: builtin_next_list_at)
  moreover have "iterator_at (snd (builtin_next h1 a)) a = iterator_at (snd (builtin_next h2 a)) a"
    using Suc.prems by (rule builtin_next_agree(2))
  ultimately have tail: "fst (pulls (snd (builtin_next h1 a)) (replicate n a)) =
        fst (pulls (snd (builtin_next h2 a)) (replicate n a))"
    by (rule Suc.IH)
  show ?case
    by (simp only: replicate_Suc fst_pulls_Cons head tail)
qed

lemma pulls_after_raise:
  "fst (builtin_next h r) = Inl e \<Longrightarrow> pulls h (replicate n r) = (replicate n (Inl e), h)"
proof (induction n)
  case 0
  show ?case by simp
next
  case (Suc n)
  have "builtin_next h r = (Inl e, h)"
    using Suc.prems builtin_next_raise_heap [OF Suc.prems] by (simp add: prod_eq_iff)
  then show ?case using Suc by simp
qed

lemma results_of_Nil: "results_of a [] xs = []"
  by (simp add: results_of_def)

lemma results_of_Cons:
  "results_of a (r # rs) (x # xs) = (if r = a then x # results_of a rs xs else results_of a rs xs)"
  by (simp add: results_of_def)

lemma filter_eq_replicate: "filter (\<lambda>r. r = a) rs = replicate (count_list rs a) a"
  by (induction rs) simp_all

lemma pulls_project:
  "results_of a rs (fst (pulls h rs)) = fst (pulls h (replicate (count_list rs a) a))"
proof (induction rs arbitrary: h)
  case Nil
  show ?case by (simp add: results_of_Nil)
next
  case (Cons r rs)
  let ?h' = "snd (builtin_next h r)"
  show ?case
  proof (cases "r = a")
    case True
    have "results_of a (a # rs) (fst (pulls h (a # rs))) =
          fst (builtin_next h a) # fst (pulls (snd (builtin_next h a)) (replicate (count_list rs a) a))"
      by (simp add: fst_pulls_Cons results_of_Cons Cons.IH del: pulls.simps)
    also have "\<dots> = fst (pulls h (replicate (count_list (a # rs) a) a))"
      by (simp add: fst_pulls_Cons del: pulls.simps)
    finally show ?thesis using True by simp
  next
    case False
    have "fst (pulls ?h' (replicate (count_list rs a) a)) = fst (pulls h (replicate (count_list rs a) a))"
      using False by (intro pulls_agree) (simp_all only: builtin_next_list_at builtin_next_other not_sym)
    then show ?thesis
      using False by (simp only: fst_pulls_Cons results_of_Cons Cons.IH count_list.simps if_False)
  qed
qed

subsection \<open>Traversals\<close>

lemma forward_step:
  assumes "iterator_at h r = AlphabeticalOrderIterator c False (int k)
           \<or> iterator_at h r = CalendarIterator c (int k)"
    and "k < length (list_at h c)"
  shows "fst (builtin_next h r) = Inr (list_at h c ! k)"
    and "iterator_at (snd (builtin_next h r)) r = AlphabeticalOrderIterator c False (int (Suc k))
         \<or> iterator_at (snd (builtin_next h r)) r = CalendarIterator c (int (Suc k))"
  using assms by (auto simp add: next_defs getitem_nat add.commute)

lemma forward_stop:
  assumes "iterator_at h r = AlphabeticalOrderIterator c False (int k)
           \<or> iterator_at h r = CalendarIterator c (int k)"
    and "length (list_at h c) \<le> k"
  shows "fst (builtin_next h r) = Inl StopIteration"
  using assms by (auto simp add: next_defs getitem_past_end)

lemma forward_run:
  "iterator_at h r = AlphabeticalOrderIterator c False (int k)
     \<or> iterator_at h r = CalendarIterator c (int k) \<Longrightarrow>
   k \<le> length (list_at h c) \<Longrightarrow>
   fst (pulls h (replicate (Suc (length (list_at h c) - k)) r)) =
     map Inr (drop k (list_at h c)) @ [Inl StopIteration]"
proof (induction "length (list_at h c) - k" arbitrary: h k)
  case 0
  then have "fst (builtin_next h r) = Inl StopIteration"
    by (intro forward_stop [where c = c and k = k]) simp_all
  with 0 show ?case
    by (simp add: fst_pulls_Cons del: pulls.simps(2))
next
  case (Suc m)
  let ?xs = "list_at h c"
  let ?h' = "snd (builtin_next h r)"
  have k: "k < length ?xs" using Suc.hyps(2) by simp
  have head: "fst (builtin_next h r) = Inr (?xs ! k)"
    using Suc.prems(1) k by (rule forward_step(1))
  have same: "list_at ?h' c = ?xs" by (simp only: builtin_next_list_at)
  have "fst (pulls ?h' (replicate (Suc (length (list_at ?h' c) - Suc k)) r)) =
     map Inr (drop (Suc k) (list_at ?h' c)) @ [Inl StopIteration]"
  proof (rule Suc.hyps(1))
    show "m = length (list_at ?h' c) - Suc k" using Suc.hyps(2) by (simp add: same)
    show "iterator_at ?h' r = AlphabeticalOrderIterator c False (int (Suc k))
          \<or> iterator_at ?h' r = CalendarIterator c (int (Suc k))"
      using Suc.prems(1) k by (rule forward_step(2))
    show "Suc k \<le> length (list_at ?h' c)" using k by (simp add: same)
  qed
  then have rest: "fst (pulls ?h' (replicate (length ?xs - k) r)) =
     map Inr (drop (Suc k) ?xs) @ [Inl StopIteration]"
    using k by (simp only: same Suc_diff_Suc)
  have "fst (pulls h (replicate (Suc (length ?xs - k)) r)) =
     Inr (?xs ! k) # fst (pulls ?h' (replicate (length ?xs - k) r))"
    by (simp only: replicate_Suc fst_pulls_Cons head)
  also have "\<dots> = map Inr (?xs ! k # drop (Suc k) ?xs) @ [Inl StopIteration]"
    by (simp only: rest list.map append_Cons)
  also have "?xs ! k # drop (Suc k) ?xs = drop k ?xs"
    using k by (rule Cons_nth_drop_Suc)
  finally show ?case .
qed

lemma backward_step:
  assumes "iterator_at h r = AlphabeticalOrderIterator c True (- 1 - int k)"
    and "k < length (list_at h c)"
  shows "fst (builtin_next h r) = Inr (list_at h c ! (length (list_at h c) - Suc k))"
    and "iterator_at (snd (builtin_next h r)) r = AlphabeticalOrderIterator c True (- 1 - int (Suc k))"
  using assms by (simp_all add: next_defs getitem_from_end)

lemma backward_stop:
  assumes "iterator_at h r = AlphabeticalOrderIterator c True (- 1 - int k)"
    and "length (list_at h c) \<le> k"
  shows "fst (builtin_next h r) = Inl StopIteration"
  using assms by (simp add: next_defs getitem_before_start)

lemma backward_run:
  "iterator_at h r = AlphabeticalOrderIterator c True (- 1 - int k) \<Longrightarrow>
   k \<le> length (list_at h c) \<Longrightarrow>
   fst (pulls h (replicate (Suc (length (list_at h c) - k)) r)) =
     map Inr (rev (take (length (list_at h c) - k) (list_at h c))) @ [Inl StopIteration]"
proof (induction "length (list_at h c) - k" arbitrary: h k)
  case 0
  then have "fst (builtin_next h r) = Inl StopIteration"
    by (intro backward_stop [where c = c and k = k]) simp_all
  with 0 show ?case
    by (simp add: fst_pulls_Cons del: pulls.simps(2))
next
  case (Suc m)
  let ?xs = "list_at h c"
  let ?h' = "snd (builtin_next h r)"
  let ?i = "length ?xs - Suc k"
  have k: "k < length ?xs" using Suc.hyps(2) by simp
  have i: "?i < length ?xs" and Suc_i: "Suc ?i = length ?xs - k" using k by simp_all
  have head: "fst (builtin_next h r) = Inr (?xs ! ?i)"
    using Suc.prems(1) k by (rule backward_step(1))
  have same: "list_at ?h' c = ?xs" by (simp only: builtin_next_list_at)
  have "fst (pulls ?h' (replicate (Suc (length (list_at ?h' c) - Suc k)) r)) =
     map Inr (rev (take (length (list_at ?h' c) - Suc k) (list_at ?h' c))) @ [Inl StopIteration]"
  proof (rule Suc.hyps(1))
    show "m = length (list_at ?h' c) - Suc k" using Suc.hyps(2) by (simp add: same)
    show "iterator_at ?h' r = AlphabeticalOrderIterator c True (- 1 - int (Suc k))"
      using Suc.prems(1) k by (rule backward_step(2))
    show "Suc k \<le> length (list_at ?h' c)" using k by (simp add: same)
  qed
  then have rest: "fst (pulls ?h' (replicate (length ?xs - k) r)) =
     map Inr (rev (take ?i ?xs)) @ [Inl StopIteration]"
    by (simp only: same Suc_i)
  have "fst (pulls h (replicate (Suc (length ?xs - k)) r)) =
     Inr (?xs ! ?i) # fst (pulls ?h' (replicate (length ?xs - k) r))"
    by (simp only: replicate_Suc fst_pulls_Cons head)
  also have "\<dots> = map Inr (rev (take ?i ?xs @ [?xs ! ?i])) @ [Inl StopIteration]"
    by (simp add: rest)
  also have "take ?i ?xs @ [?xs ! ?i] = take (Suc ?i) ?xs"
    using i by (simp only: take_Suc_conv_app_nth)
  finally show ?case by (simp only: Suc_i)
qed

subsection \<open>Appending\<close>

lemma populate_list_at:
  "list_at (populate h c xs) = (list_at h)(wc_collection c := list_at h (wc_collection c) @ xs)"
  by (induction xs arbitrary: h) (simp_all add: WordsCollection_add_item_def)

lemma populate_iterator_at: "iterator_at (populate h c xs) = iterator_at h"
  by (induction xs arbitrary: h) (simp_all add: WordsCollection_add_item_def)

lemma populate_next_ref: "next_ref (populate h c xs) = next_ref h"
  by (induction xs arbitrary: h) (simp_all add: WordsCollection_add_item_def)

lemma populate_days_list_at:
  "list_at (populate_days h c xs) =
     (list_at h)(ccd_collection c := list_at h (ccd_collection c) @ xs)"
  by (induction xs arbitrary: h) (simp_all add: CollectionCalendarDays_add_item_def)

subsection \<open>New iterators\<close>

lemma init_fst: "fst (AlphabeticalOrderIterator_init h c b) = next_ref h"
  by (simp add: AlphabeticalOrderIterator_init_def Let_def)

lemma init_list_at: "list_at (snd (AlphabeticalOrderIterator_init h c b)) = list_at h"
  by (simp add: AlphabeticalOrderIterator_init_def Let_def)

lemma init_next_ref: "next_ref (snd (AlphabeticalOrderIterator_init h c b)) = Suc (next_ref h)"
  by (simp add: AlphabeticalOrderIterator_init_def Let_def)

lemma init_iterator_at:
  "iterator_at (snd (AlphabeticalOrderIterator_init h c b)) =
     (iterator_at h)(next_ref h := AlphabeticalOrderIterator c b (if b then - 1 else 0))"
  by (simp add: AlphabeticalOrderIterator_init_def Let_def)

lemma calendar_init_fst: "fst (CalendarIterator_init h c) = next_ref h"
  by (simp add: CalendarIterator_init_def Let_def)

lemma calendar_init_list_at: "list_at (snd (CalendarIterator_init h c)) = list_at h"
  by (simp add: CalendarIterator_init_def Let_def)

lemma calendar_init_iterator_at:
  "iterator_at (snd (CalendarIterator_init h c)) =
     (iterator_at h)(next_ref h := CalendarIterator c 0)"
  by (simp add: CalendarIterator_init_def Let_def)

subsection \<open>The initial heap\<close>

lemma initial_list_at: "list_at initial_heap r = []"
  by (simp add: initial_heap_def)

lemma demo_heap_list:
  "list_at demo_heap (wc_collection demo_collection) = [''First'', ''Second'', ''Third'']"
  by (simp add: demo_heap_def populate_list_at initial_list_at del: populate.simps)

lemma demo_heap_next_ref: "next_ref demo_heap = 0"
  by (simp add: demo_heap_def populate_next_ref initial_heap_def del: populate.simps)

lemma add_item_list_at:
  "list_at (WordsCollection_add_item h c x) =
     (list_at h)(wc_collection c := list_at h (wc_collection c) @ [x])"
  by (simp add: WordsCollection_add_item_def)

lemma add_item_iterator_at: "iterator_at (WordsCollection_add_item h c x) = iterator_at h"
  by (simp add: WordsCollection_add_item_def)

lemma add_item_next_ref: "next_ref (WordsCollection_add_item h c x) = next_ref h"
  by (simp add: WordsCollection_add_item_def)

subsection \<open>The generator\<close>

lemma loop_head_yield:
  "s \<le> e \<Longrightarrow> loop_head f s e = (Inr (f s), Suspended s e)"
  by (simp add: loop_head_def)

lemma loop_head_return:
  "e < s \<Longrightarrow> loop_head f s e = (Inl StopIteration, Finished)"
  by (simp add: loop_head_def)

lemma date_add_one:
  "1 \<le> s \<Longrightarrow> s < MAXORDINAL \<Longrightarrow> date_add_days s 1 = Inr (s + 1)"
  by (simp add: date_add_days_def Let_def)

lemma date_add_one_overflow:
  "MAXORDINAL \<le> s \<Longrightarrow> date_add_days s 1 = Inl OverflowError"
  by (simp add: date_add_days_def Let_def)

lemma suspended_run:
  "1 \<le> s \<Longrightarrow> s \<le> e \<Longrightarrow> e \<le> MAXORDINAL \<Longrightarrow>
   generator_pulls f (Suc (nat (e - s))) (Suspended s e) =
     map (\<lambda>d. Inr (f d)) [s + 1..e]
       @ [Inl (if e < MAXORDINAL then StopIteration else OverflowError)]"
proof (induction "nat (e - s)" arbitrary: s)
  case 0
  then have eq: "s = e" by simp
  show ?case
  proof (cases "e < MAXORDINAL")
    case True
    then show ?thesis
      using 0 eq by (simp add: date_add_one loop_head_return)
  next
    case False
    then show ?thesis
      using 0 eq by (simp add: date_add_one_overflow)
  qed
next
  case (Suc n)
  then have lt: "s < e" by simp
  then have step: "generator_next f (Suspended s e) = (Inr (f (s + 1)), Suspended (s + 1) e)"
    using Suc.prems by (simp add: date_add_one loop_head_yield)
  have "generator_pulls f (Suc (nat (e - (s + 1)))) (Suspended (s + 1) e) =
     map (\<lambda>d. Inr (f d)) [s + 1 + 1..e]
       @ [Inl (if e < MAXORDINAL then StopIteration else OverflowError)]"
    using Suc.hyps(2) Suc.prems lt by (intro Suc.hyps(1)) simp_all
  moreover have "nat (e - s) = Suc (nat (e - (s + 1)))" using lt by simp
  moreover have "[s + 1..e] = (s + 1) # [s + 1 + 1..e]"
    using lt by (simp add: upto_rec1)
  ultimately show ?case
    using step by (simp del: generator_pulls.simps(2) add: generator_pulls.simps(2) [of f _ "Suspended s e"])
qed

lemma generator_run:
  assumes "1 \<le> s" and "s \<le> e" and "e \<le> MAXORDINAL"
  shows "generator_pulls f (Suc (Suc (nat (e - s)))) (calendar_generator_datetime s e) =
     map (\<lambda>d. Inr (f d)) [s..e]
       @ [Inl (if e < MAXORDINAL then StopIteration else OverflowError)]"
proof -
  have "generator_pulls f (Suc (Suc (nat (e - s)))) (calendar_generator_datetime s e) =
        Inr (f s) # generator_pulls f (Suc (nat (e - s))) (Suspended s e)"
    using assms(2)
    by (simp only: calendar_generator_datetime_def generator_pulls.simps(2) [of f _ "Created s e"]
        generator_next.simps loop_head_yield fst_conv snd_conv)
  also have "\<dots> = Inr (f s) # map (\<lambda>d. Inr (f d)) [s + 1..e]
       @ [Inl (if e < MAXORDINAL then StopIteration else OverflowError)]"
    using assms by (simp only: suspended_run)
  also have "\<dots> = map (\<lambda>d. Inr (f d)) [s..e]
       @ [Inl (if e < MAXORDINAL then StopIteration else OverflowError)]"
    using assms(2) by (simp add: upto_rec1)
  finally show ?thesis .
qed

lemma generator_empty_range:
  "e < s \<Longrightarrow> generator_pulls f (Suc n) (calendar_generator_datetime s e) =
     replicate (Suc n) (Inl StopIteration)"
proof -
  have fin: "generator_pulls f n Finished = replicate n (Inl StopIteration)" for n
    by (induction n) simp_all
  assume "e < s"
  then show ?thesis
    by (simp add: calendar_generator_datetime_def loop_head_return fin)
qed

section \<open>The claims\<close>


text \<open>
  Claim C1. A container whose list is empty is populated with \<open>items\<close> by one
  \<^verbatim>\<open>add_item\<close> call per item, in order; \<open>length items + 1\<close> successive \<^verbatim>\<open>next\<close>
  calls on the iterator that \<^verbatim>\<open>__iter__\<close> returns give the items in the order they
  were appended, and the last call raises \<^verbatim>\<open>StopIteration\<close>. This holds for
  \<^verbatim>\<open>WordsCollection\<close> with its \<^verbatim>\<open>AlphabeticalOrderIterator\<close> and for
  \<^verbatim>\<open>CollectionCalendarDays\<close> with its \<^verbatim>\<open>CalendarIterator\<close>, for any number of
  items of any type.
\<close>

theorem forward_cursor_yields_items_in_order:
  "(list_at h (wc_collection c) = [] \<longrightarrow>
      fst (pulls (snd (WordsCollection_iter (populate h c items) c))
             (replicate (Suc (length items)) (fst (WordsCollection_iter (populate h c items) c))))
        = map Inr items @ [Inl StopIteration])
   \<and> (list_at h (ccd_collection d) = [] \<longrightarrow>
      fst (pulls (snd (CollectionCalendarDays_iter (populate_days h d items) d))
             (replicate (Suc (length items))
                (fst (CollectionCalendarDays_iter (populate_days h d items) d))))
        = map Inr items @ [Inl StopIteration])"
proof (intro conjI impI)
  assume empty: "list_at h (wc_collection c) = []"
  let ?h1 = "populate h c items"
  let ?r = "fst (WordsCollection_iter ?h1 c)"
  let ?h2 = "snd (WordsCollection_iter ?h1 c)"
  have xs: "list_at ?h2 (wc_collection c) = items"
    by (simp add: WordsCollection_iter_def init_list_at populate_list_at empty)
  have it: "iterator_at ?h2 ?r = AlphabeticalOrderIterator (wc_collection c) False (int 0)"
    by (simp add: WordsCollection_iter_def init_iterator_at init_fst)
  have "fst (pulls ?h2 (replicate (Suc (length (list_at ?h2 (wc_collection c)) - 0)) ?r)) =
     map Inr (drop 0 (list_at ?h2 (wc_collection c))) @ [Inl StopIteration]"
    by (rule forward_run) (simp_all only: it simp_thms le0)
  then show "fst (pulls ?h2 (replicate (Suc (length items)) ?r)) = map Inr items @ [Inl StopIteration]"
    by (simp only: xs drop_0 diff_zero)
next
  assume empty: "list_at h (ccd_collection d) = []"
  let ?h1 = "populate_days h d items"
  let ?r = "fst (CollectionCalendarDays_iter ?h1 d)"
  let ?h2 = "snd (CollectionCalendarDays_iter ?h1 d)"
  have xs: "list_at ?h2 (ccd_collection d) = items"
    by (simp add: CollectionCalendarDays_iter_def calendar_init_list_at populate_days_list_at empty)
  have it: "iterator_at ?h2 ?r = CalendarIterator (ccd_collection d) (int 0)"
    by (simp add: CollectionCalendarDays_iter_def calendar_init_iterator_at calendar_init_fst)
  have "fst (pulls ?h2 (replicate (Suc (length (list_at ?h2 (ccd_collection d)) - 0)) ?r)) =
     map Inr (drop 0 (list_at ?h2 (ccd_collection d))) @ [Inl StopIteration]"
    by (rule forward_run) (simp_all only: it simp_thms le0)
  then show "fst (pulls ?h2 (replicate (Suc (length items)) ?r)) = map Inr items @ [Inl StopIteration]"
    by (simp only: xs drop_0 diff_zero)
qed


theorem forward_cursor_yields_items_in_order_witness:
  "list_at (initial_heap :: string heap) (wc_collection demo_collection) = []
   \<and> list_at (initial_heap :: string heap) (ccd_collection (CollectionCalendarDays_init None)) = []
   \<and> fst (pulls (snd (WordsCollection_iter demo_heap demo_collection))
        (replicate 4 (fst (WordsCollection_iter demo_heap demo_collection))))
      = [Inr ''First'', Inr ''Second'', Inr ''Third'', Inl StopIteration]
   \<and> fst (pulls (snd (CollectionCalendarDays_iter
                       (populate_days initial_heap (CollectionCalendarDays_init None)
                          [''01 October'', ''02 October''])
                       (CollectionCalendarDays_init None)))
        (replicate 3 (fst (CollectionCalendarDays_iter
                              (populate_days initial_heap (CollectionCalendarDays_init None)
                                 [''01 October'', ''02 October''])
                              (CollectionCalendarDays_init None)))))
      = [Inr ''01 October'', Inr ''02 October'', Inl StopIteration]"
  using forward_cursor_yields_items_in_order
    [of "initial_heap :: string heap" demo_collection "[''First'', ''Second'', ''Third'']"
        "CollectionCalendarDays_init None"]
    forward_cursor_yields_items_in_order
    [of "initial_heap :: string heap" demo_collection "[''01 October'', ''02 October'']"
        "CollectionCalendarDays_init None"]
  by (simp add: initial_list_at demo_heap_def numeral_eq_Suc del: replicate.simps pulls.simps)

text \<open>
  Claim C2. For a container whose list is empty and is then populated with \<open>items\<close> by
  one \<^verbatim>\<open>add_item\<close> call per item, \<open>length items + 1\<close> successive \<^verbatim>\<open>next\<close> calls
  on the iterator that \<^verbatim>\<open>get_reverse_iterator\<close> returns give the items from the last
  appended to the first, and the last call raises \<^verbatim>\<open>StopIteration\<close>.
\<close>

theorem backward_cursor_yields_items_reversed:
  assumes "list_at h (wc_collection c) = []"
  shows "fst (pulls (snd (get_reverse_iterator (populate h c items) c))
             (replicate (Suc (length items)) (fst (get_reverse_iterator (populate h c items) c))))
        = map Inr (rev items) @ [Inl StopIteration]"
proof -
  let ?h1 = "populate h c items"
  let ?r = "fst (get_reverse_iterator ?h1 c)"
  let ?h2 = "snd (get_reverse_iterator ?h1 c)"
  have xs: "list_at ?h2 (wc_collection c) = items"
    by (simp add: get_reverse_iterator_def init_list_at populate_list_at assms)
  have it: "iterator_at ?h2 ?r = AlphabeticalOrderIterator (wc_collection c) True (- 1 - int 0)"
    by (simp add: get_reverse_iterator_def init_iterator_at init_fst)
  have "fst (pulls ?h2 (replicate (Suc (length (list_at ?h2 (wc_collection c)) - 0)) ?r)) =
     map Inr (rev (take (length (list_at ?h2 (wc_collection c)) - 0) (list_at ?h2 (wc_collection c))))
       @ [Inl StopIteration]"
    using it by (rule backward_run) simp
  then show ?thesis
    by (simp only: xs diff_zero take_all order_refl)
qed

theorem backward_cursor_yields_items_reversed_witness:
  "list_at (initial_heap :: string heap) (wc_collection demo_collection) = []
   \<and> fst (pulls (snd (get_reverse_iterator demo_heap demo_collection))
        (replicate 4 (fst (get_reverse_iterator demo_heap demo_collection))))
      = [Inr ''Third'', Inr ''Second'', Inr ''First'', Inl StopIteration]"
  using backward_cursor_yields_items_reversed
    [of "initial_heap :: string heap" demo_collection "[''First'', ''Second'', ''Third'']"]
  by (simp add: initial_list_at demo_heap_def numeral_eq_Suc del: replicate.simps pulls.simps)

text \<open>
  Claim C4, as stated, fails: over the three-element list of the client code the reverse
  iterator starts at position \<open>-1\<close>, not at \<open>length - 1 = 2\<close>.
\<close>

theorem backward_position_is_last_index_counterexample:
  "it_position (iterator_at (snd (get_reverse_iterator demo_heap demo_collection))
                  (fst (get_reverse_iterator demo_heap demo_collection)))
     \<noteq> int (length (list_at demo_heap (wc_collection demo_collection))) - 1"
  by (simp add: get_reverse_iterator_def init_iterator_at init_fst demo_heap_list)

text \<open>
  Claim C4, amended. \<^verbatim>\<open>AlphabeticalOrderIterator.__init__\<close> sets the position to
  \<open>0\<close> for a forward iterator and to \<open>-1\<close> for a reverse one, whatever the length of
  the list; \<^verbatim>\<open>CalendarIterator.__init__\<close> sets it to \<open>0\<close>. Indexing a list at
  \<open>-1\<close> reads what indexing at \<open>length - 1\<close> reads (the last element, or
  \<^verbatim>\<open>IndexError\<close> on the empty list).
\<close>

theorem initial_position:
  "it_position (iterator_at (snd (AlphabeticalOrderIterator_init h coll rev_flag))
                  (fst (AlphabeticalOrderIterator_init h coll rev_flag)))
     = (if rev_flag then - 1 else 0)
   \<and> it_position (iterator_at (snd (CalendarIterator_init h coll)) (fst (CalendarIterator_init h coll)))
     = 0
   \<and> getitem (list_at h coll) (- 1) = getitem (list_at h coll) (int (length (list_at h coll)) - 1)"
  by (simp add: init_iterator_at init_fst calendar_init_iterator_at calendar_init_fst
      getitem_def Let_def)

text \<open>
  Claim C10. A \<^verbatim>\<open>next\<close> call that raises \<^verbatim>\<open>StopIteration\<close> leaves the whole heap as
  it was, and with it the position, the direction flag and the collection reference of
  the iterator; the position of an iterator changes only in a call that returns an
  element.
\<close>

theorem raising_next_leaves_cursor_unchanged:
  "(fst (builtin_next h r) = Inl StopIteration \<longrightarrow> snd (builtin_next h r) = h)
   \<and> (it_position (iterator_at (snd (builtin_next h r)) r) \<noteq> it_position (iterator_at h r)
        \<longrightarrow> (\<exists>v. fst (builtin_next h r) = Inr v))"
proof (intro conjI impI)
  assume "fst (builtin_next h r) = Inl StopIteration"
  then show "snd (builtin_next h r) = h" by (rule builtin_next_raise_heap)
next
  assume moved: "it_position (iterator_at (snd (builtin_next h r)) r) \<noteq> it_position (iterator_at h r)"
  show "\<exists>v. fst (builtin_next h r) = Inr v"
  proof (cases "fst (builtin_next h r)")
    case (Inl e)
    then have "snd (builtin_next h r) = h" by (rule builtin_next_raise_heap)
    with moved show ?thesis by simp
  next
    case (Inr v)
    then show ?thesis by blast
  qed
qed

theorem raising_next_leaves_cursor_unchanged_witness:
  "fst (builtin_next (snd (WordsCollection_iter (initial_heap :: string heap) demo_collection))
          (fst (WordsCollection_iter (initial_heap :: string heap) demo_collection)))
     = Inl StopIteration
   \<and> snd (builtin_next (snd (WordsCollection_iter (initial_heap :: string heap) demo_collection))
          (fst (WordsCollection_iter (initial_heap :: string heap) demo_collection)))
     = snd (WordsCollection_iter (initial_heap :: string heap) demo_collection)
   \<and> it_position (iterator_at (snd (builtin_next (snd (WordsCollection_iter demo_heap demo_collection))
          (fst (WordsCollection_iter demo_heap demo_collection))))
          (fst (WordsCollection_iter demo_heap demo_collection)))
     \<noteq> it_position (iterator_at (snd (WordsCollection_iter demo_heap demo_collection))
          (fst (WordsCollection_iter demo_heap demo_collection)))
   \<and> fst (builtin_next (snd (WordsCollection_iter demo_heap demo_collection))
          (fst (WordsCollection_iter demo_heap demo_collection))) = Inr ''First''"
proof -
  let ?h0 = "snd (WordsCollection_iter (initial_heap :: string heap) demo_collection)"
  let ?r0 = "fst (WordsCollection_iter (initial_heap :: string heap) demo_collection)"
  let ?h1 = "snd (WordsCollection_iter demo_heap demo_collection)"
  let ?r1 = "fst (WordsCollection_iter demo_heap demo_collection)"
  have stop: "fst (builtin_next ?h0 ?r0) = Inl StopIteration"
    by (simp add: WordsCollection_iter_def init_iterator_at init_fst init_list_at initial_list_at
        next_defs getitem_def)
  have first: "fst (builtin_next ?h1 ?r1) = Inr ''First''"
    by (simp add: WordsCollection_iter_def init_iterator_at init_fst init_list_at demo_heap_list
        next_defs getitem_def)
  have moved: "it_position (iterator_at (snd (builtin_next ?h1 ?r1)) ?r1)
                 \<noteq> it_position (iterator_at ?h1 ?r1)"
    by (simp add: WordsCollection_iter_def init_iterator_at init_fst init_list_at demo_heap_list
        next_defs getitem_def)
  from raising_next_leaves_cursor_unchanged [of ?h0 ?r0] stop
  have "snd (builtin_next ?h0 ?r0) = ?h0" by blast
  moreover from raising_next_leaves_cursor_unchanged [of ?h1 ?r1] moved
  have "\<exists>v. fst (builtin_next ?h1 ?r1) = Inr v" by blast
  ultimately show ?thesis using stop first moved by blast
qed

text \<open>
  Claim C5, as stated, fails: the reverse iterator of the client code looks up index
  \<open>-1\<close>, which is outside \<open>[0, 3)\<close>, and the call returns \<^verbatim>\<open>"Third"\<close>: the cursor
  stays active.
\<close>

theorem exhaustion_outside_zero_to_length_counterexample:
  "(cursor_state_after
      [fst (builtin_next (snd (get_reverse_iterator demo_heap demo_collection))
              (fst (get_reverse_iterator demo_heap demo_collection)))] = Exhausted)
   \<noteq> (it_position (iterator_at (snd (get_reverse_iterator demo_heap demo_collection))
                        (fst (get_reverse_iterator demo_heap demo_collection))) < 0
        \<or> int (length (list_at (snd (get_reverse_iterator demo_heap demo_collection))
                            (wc_collection demo_collection)))
            \<le> it_position (iterator_at (snd (get_reverse_iterator demo_heap demo_collection))
                              (fst (get_reverse_iterator demo_heap demo_collection))))"
  by (simp add: get_reverse_iterator_def init_iterator_at init_fst init_list_at demo_heap_list
      next_defs getitem_def cursor_state_after_def)

text \<open>
  Claim C5, amended. A cursor that has made no call is \<open>Active\<close>. A \<^verbatim>\<open>next\<close> call
  takes it to \<open>Exhausted\<close> exactly when the position it looks up is outside
  \<open>[-L, L)\<close>, for \<open>L\<close> the length of the list at the time of the call: negative
  positions count from the end. Such a call leaves the heap as it was, so further
  \<^verbatim>\<open>next\<close> calls on the same heap raise \<^verbatim>\<open>StopIteration\<close> again.
\<close>

theorem exhaustion_iff_index_out_of_range:
  "cursor_state_after ([] :: (error + 'a) list) = Active
   \<and> (cursor_state_after [fst (builtin_next h r)] = Exhausted)
       = (it_position (iterator_at h r)
            < - int (length (list_at h (it_collection (iterator_at h r))))
          \<or> int (length (list_at h (it_collection (iterator_at h r))))
            \<le> it_position (iterator_at h r))
   \<and> (cursor_state_after [fst (builtin_next h r)] = Exhausted \<longrightarrow>
        pulls h (replicate n r) = (replicate n (Inl StopIteration), h))"
proof -
  have state: "(cursor_state_after [fst (builtin_next h r)] = Exhausted)
                = (fst (builtin_next h r) = Inl StopIteration)"
  proof (cases "fst (builtin_next h r)")
    case (Inl e)
    then have "e = StopIteration" by (rule builtin_next_raise_kind)
    with Inl show ?thesis by (simp add: cursor_state_after_def)
  next
    case (Inr v)
    then show ?thesis by (simp add: cursor_state_after_def)
  qed
  have "cursor_state_after ([] :: (error + 'a) list) = Active"
    by (simp add: cursor_state_after_def)
  moreover have "(cursor_state_after [fst (builtin_next h r)] = Exhausted)
       = (it_position (iterator_at h r)
            < - int (length (list_at h (it_collection (iterator_at h r))))
          \<or> int (length (list_at h (it_collection (iterator_at h r))))
            \<le> it_position (iterator_at h r))"
    by (simp only: state builtin_next_raises_iff)
  moreover have "cursor_state_after [fst (builtin_next h r)] = Exhausted \<longrightarrow>
        pulls h (replicate n r) = (replicate n (Inl StopIteration), h)"
    by (simp only: state) (blast intro: pulls_after_raise)
  ultimately show ?thesis by blast
qed

theorem exhaustion_iff_index_out_of_range_witness:
  "cursor_state_after
     [fst (builtin_next (snd (get_reverse_iterator (initial_heap :: string heap) demo_collection))
             (fst (get_reverse_iterator (initial_heap :: string heap) demo_collection)))] = Exhausted
   \<and> pulls (snd (get_reverse_iterator (initial_heap :: string heap) demo_collection))
        (replicate 2 (fst (get_reverse_iterator (initial_heap :: string heap) demo_collection)))
      = ([Inl StopIteration, Inl StopIteration],
         snd (get_reverse_iterator (initial_heap :: string heap) demo_collection))"
proof -
  let ?h = "snd (get_reverse_iterator (initial_heap :: string heap) demo_collection)"
  let ?r = "fst (get_reverse_iterator (initial_heap :: string heap) demo_collection)"
  have ex: "cursor_state_after [fst (builtin_next ?h ?r)] = Exhausted"
    by (simp add: get_reverse_iterator_def init_iterator_at init_fst init_list_at initial_list_at
        next_defs getitem_def cursor_state_after_def)
  from exhaustion_iff_index_out_of_range [of ?h ?r 2] ex
  have "pulls ?h (replicate 2 ?r) = (replicate 2 (Inl StopIteration), ?h)" by blast
  with ex show ?thesis by (simp add: numeral_2_eq_2 del: pulls.simps)
qed

text \<open>
  Claim C9. \<^verbatim>\<open>add_item\<close> has no failing branch: it returns a heap in which the list of
  the container is the old list with the item after it, so the length grows by one and
  the old elements keep their places, and in which every iterator object is as it was.
  The same holds for \<^verbatim>\<open>CollectionCalendarDays.add_item\<close>, and for \<^verbatim>\<open>add_items\<close> with a
  list of items.
\<close>

theorem add_item_appends_at_the_end:
  "list_at (WordsCollection_add_item h c item) (wc_collection c)
     = list_at h (wc_collection c) @ [item]
   \<and> length (list_at (WordsCollection_add_item h c item) (wc_collection c))
     = Suc (length (list_at h (wc_collection c)))
   \<and> take (length (list_at h (wc_collection c)))
        (list_at (WordsCollection_add_item h c item) (wc_collection c))
     = list_at h (wc_collection c)
   \<and> iterator_at (WordsCollection_add_item h c item) = iterator_at h
   \<and> list_at (CollectionCalendarDays_add_item h d item) (ccd_collection d)
     = list_at h (ccd_collection d) @ [item]
   \<and> iterator_at (CollectionCalendarDays_add_item h d item) = iterator_at h
   \<and> list_at (add_items h d items) (ccd_collection d) = list_at h (ccd_collection d) @ items
   \<and> iterator_at (add_items h d items) = iterator_at h"
  by (simp add: WordsCollection_add_item_def CollectionCalendarDays_add_item_def add_items_def)

text \<open>
  Claim C7 at \<^verbatim>\<open>start = end = date.max\<close>: the first \<^verbatim>\<open>next\<close> yields the formatted
  date, and the second one raises \<^verbatim>\<open>OverflowError\<close> from
  \<^verbatim>\<open>start_calendar += timedelta(days=1)\<close>, where the claim has \<^verbatim>\<open>StopIteration\<close>.
  For every range that ends before \<^verbatim>\<open>date.max\<close> the generator does what the claim
  says (\<open>generator_run\<close>, \<open>generator_empty_range\<close>).
\<close>

theorem generator_raises_overflow_at_date_max:
  "is_date MAXORDINAL
   \<and> generator_pulls strftime 2 (calendar_generator_datetime MAXORDINAL MAXORDINAL)
     = [Inr (strftime MAXORDINAL), Inl OverflowError]"
  by (simp add: is_date_def MAXORDINAL_def numeral_2_eq_2 calendar_generator_datetime_def
      loop_head_def date_add_days_def)

text \<open>
  Claim C6. Let \<open>f\<close> be the iterator that \<^verbatim>\<open>__iter__\<close> returns for a container and
  \<open>b\<close> the one that \<^verbatim>\<open>get_reverse_iterator\<close> then returns for the same container. They
  are two objects. A \<^verbatim>\<open>next\<close> call on either, in any heap, leaves every list and the
  other iterator as they were. For any sequence \<open>rs\<close> of calls, the results that the
  calls on \<open>f\<close> receive are the results of the same number of calls made on \<open>f\<close>
  alone, and likewise for \<open>b\<close>; no list has changed at the end.
\<close>

theorem independent_cursors_do_not_interfere:
  fixes h g :: "'a heap" and c :: WordsCollection and rs :: "ref list"
  defines "f \<equiv> fst (WordsCollection_iter h c)"
  defines "b \<equiv> fst (get_reverse_iterator (snd (WordsCollection_iter h c)) c)"
  defines "h2 \<equiv> snd (get_reverse_iterator (snd (WordsCollection_iter h c)) c)"
  shows "f \<noteq> b
    \<and> list_at (snd (builtin_next g f)) = list_at g
    \<and> list_at (snd (builtin_next g b)) = list_at g
    \<and> iterator_at (snd (builtin_next g f)) b = iterator_at g b
    \<and> iterator_at (snd (builtin_next g b)) f = iterator_at g f
    \<and> list_at (snd (pulls h2 rs)) = list_at h2
    \<and> results_of f rs (fst (pulls h2 rs)) = fst (pulls h2 (replicate (count_list rs f) f))
    \<and> results_of b rs (fst (pulls h2 rs)) = fst (pulls h2 (replicate (count_list rs b) b))"
proof -
  have f: "f = next_ref h"
    by (simp add: f_def WordsCollection_iter_def init_fst)
  have b: "b = Suc (next_ref h)"
    by (simp add: b_def WordsCollection_iter_def get_reverse_iterator_def init_fst init_next_ref)
  have ne: "f \<noteq> b" by (simp add: f b)
  then have ne': "b \<noteq> f" by simp
  show ?thesis
    using ne ne'
    by (simp only: builtin_next_list_at builtin_next_other pulls_list_at pulls_project
        not_False_eq_True simp_thms)
qed

text \<open>
  Claim C8. Two containers created without an argument hold the same default list:
  after \<^verbatim>\<open>add_item\<close> on the first, the iterator of the second yields everything the
  default list held and then the new item. Right after the module is loaded the default
  list is empty and the item is the first value the second container yields. The same
  holds for \<^verbatim>\<open>CollectionCalendarDays\<close>.
\<close>

theorem default_list_is_shared:
  "fst (pulls (snd (WordsCollection_iter
                      (WordsCollection_add_item h (WordsCollection_init None) item)
                      (WordsCollection_init None)))
         (replicate (Suc (Suc (length (list_at h WordsCollection_default))))
            (fst (WordsCollection_iter
                    (WordsCollection_add_item h (WordsCollection_init None) item)
                    (WordsCollection_init None)))))
     = map Inr (list_at h WordsCollection_default @ [item]) @ [Inl StopIteration]
   \<and> fst (builtin_next (snd (WordsCollection_iter
                      (WordsCollection_add_item initial_heap (WordsCollection_init None) item)
                      (WordsCollection_init None)))
            (fst (WordsCollection_iter
                    (WordsCollection_add_item initial_heap (WordsCollection_init None) item)
                    (WordsCollection_init None))))
     = Inr item
   \<and> fst (builtin_next (snd (CollectionCalendarDays_iter
                      (CollectionCalendarDays_add_item initial_heap
                         (CollectionCalendarDays_init None) item)
                      (CollectionCalendarDays_init None)))
            (fst (CollectionCalendarDays_iter
                    (CollectionCalendarDays_add_item initial_heap
                       (CollectionCalendarDays_init None) item)
                    (CollectionCalendarDays_init None))))
     = Inr item"
proof (intro conjI)
  let ?c = "WordsCollection_init None"
  let ?h1 = "WordsCollection_add_item h ?c item"
  let ?r = "fst (WordsCollection_iter ?h1 ?c)"
  let ?h2 = "snd (WordsCollection_iter ?h1 ?c)"
  let ?old = "list_at h WordsCollection_default"
  have coll: "wc_collection ?c = WordsCollection_default"
    by (simp add: WordsCollection_init_def)
  have xs: "list_at ?h2 WordsCollection_default = ?old @ [item]"
    by (simp add: WordsCollection_iter_def init_list_at add_item_list_at coll)
  have it: "iterator_at ?h2 ?r = AlphabeticalOrderIterator WordsCollection_default False (int 0)"
    by (simp add: WordsCollection_iter_def init_iterator_at init_fst coll)
  have "fst (pulls ?h2 (replicate (Suc (length (list_at ?h2 WordsCollection_default) - 0)) ?r)) =
     map Inr (drop 0 (list_at ?h2 WordsCollection_default)) @ [Inl StopIteration]"
    by (rule forward_run) (simp_all only: it simp_thms le0)
  then show "fst (pulls ?h2 (replicate (Suc (Suc (length ?old))) ?r))
     = map Inr (?old @ [item]) @ [Inl StopIteration]"
    by (simp only: xs drop_0 diff_zero length_append list.size add_Suc_right add_0_right)
next
  show "fst (builtin_next (snd (WordsCollection_iter
                      (WordsCollection_add_item initial_heap (WordsCollection_init None) item)
                      (WordsCollection_init None)))
            (fst (WordsCollection_iter
                    (WordsCollection_add_item initial_heap (WordsCollection_init None) item)
                    (WordsCollection_init None))))
     = Inr item"
    by (simp add: WordsCollection_iter_def init_iterator_at init_fst init_list_at
        add_item_list_at initial_list_at WordsCollection_init_def next_defs getitem_def)
next
  show "fst (builtin_next (snd (CollectionCalendarDays_iter
                      (CollectionCalendarDays_add_item initial_heap
                         (CollectionCalendarDays_init None) item)
                      (CollectionCalendarDays_init None)))
            (fst (CollectionCalendarDays_iter
                    (CollectionCalendarDays_add_item initial_heap
                       (CollectionCalendarDays_init None) item)
                    (CollectionCalendarDays_init None))))
     = Inr item"
    by (simp add: CollectionCalendarDays_iter_def calendar_init_iterator_at calendar_init_fst
        calendar_init_list_at CollectionCalendarDays_add_item_def initial_list_at
        CollectionCalendarDays_init_def next_defs getitem_def)
qed

text \<open>
  Claim C3 at two runs of the client interface. A forward iterator over the empty
  default list raises \<^verbatim>\<open>StopIteration\<close>; after \<^verbatim>\<open>add_item("First")\<close> the next call on
  the same iterator returns \<^verbatim>\<open>"First"\<close>. A reverse iterator over \<^verbatim>\<open>["First"]\<close> returns
  \<^verbatim>\<open>"First"\<close> and then raises \<^verbatim>\<open>StopIteration\<close>; after \<^verbatim>\<open>add_item("Second")\<close> its
  position \<open>-2\<close> is in range again and the next call returns \<^verbatim>\<open>"First"\<close> a second
  time. While no item is appended, an iterator that has raised keeps raising
  (\<open>pulls_after_raise\<close>).
\<close>

theorem exhausted_cursor_yields_after_append:
  "fst (builtin_next (snd (WordsCollection_iter (initial_heap :: string heap) demo_collection))
          (fst (WordsCollection_iter (initial_heap :: string heap) demo_collection)))
     = Inl StopIteration
   \<and> fst (builtin_next
          (WordsCollection_add_item
             (snd (builtin_next
                     (snd (WordsCollection_iter (initial_heap :: string heap) demo_collection))
                     (fst (WordsCollection_iter (initial_heap :: string heap) demo_collection))))
             demo_collection ''First'')
          (fst (WordsCollection_iter (initial_heap :: string heap) demo_collection)))
     = Inr ''First''
   \<and> fst (pulls (snd (get_reverse_iterator
                       (WordsCollection_add_item initial_heap demo_collection ''First'')
                       demo_collection))
        (replicate 2 (fst (get_reverse_iterator
                       (WordsCollection_add_item initial_heap demo_collection ''First'')
                       demo_collection))))
     = [Inr ''First'', Inl StopIteration]
   \<and> fst (builtin_next
          (WordsCollection_add_item
             (snd (pulls (snd (get_reverse_iterator
                       (WordsCollection_add_item initial_heap demo_collection ''First'')
                       demo_collection))
                (replicate 2 (fst (get_reverse_iterator
                       (WordsCollection_add_item initial_heap demo_collection ''First'')
                       demo_collection)))))
             demo_collection ''Second'')
          (fst (get_reverse_iterator
                       (WordsCollection_add_item initial_heap demo_collection ''First'')
                       demo_collection)))
     = Inr ''First''"
  by (simp add: WordsCollection_iter_def get_reverse_iterator_def
      AlphabeticalOrderIterator_init_def WordsCollection_add_item_def initial_heap_def
      demo_collection_def WordsCollection_init_def WordsCollection_default_def
      next_defs getitem_def numeral_2_eq_2 Let_def)

end
